theory Spec2Isabelle
  imports Complex_Main
begin

section \<open>Python strings\<close>

text \<open>
  A Python \<open>str\<close> is modelled as a \<open>string\<close>, each \<open>char\<close> standing for the code point
  of the same number (so the model covers text whose code points are below 256, and
  \<open>length\<close> is Python's \<open>len\<close>).
\<close>

definition dquote :: char where
  "dquote = CHR 0x22"

definition newline :: char where
  "newline = CHR 0x0A"

text \<open>\<open>str.isspace\<close> on one character, for the code points below 256.\<close>

definition isspace :: "char \<Rightarrow> bool" where
  "isspace c = (c \<in> set [CHR 0x09, CHR 0x0A, CHR 0x0B, CHR 0x0C, CHR 0x0D,
                           CHR 0x1C, CHR 0x1D, CHR 0x1E, CHR 0x1F, CHR 0x20,
                           CHR 0x85, CHR 0xA0])"

text \<open>\<open>s.strip()\<close>: leading and trailing whitespace removed.\<close>

definition strip :: "string \<Rightarrow> string" where
  "strip s = rev (dropWhile isspace (rev (dropWhile isspace s)))"

text \<open>\<open>s.startswith(p)\<close> and \<open>s.endswith(p)\<close>.\<close>

definition startswith :: "string \<Rightarrow> string \<Rightarrow> bool" where
  "startswith p s = (take (length p) s = p)"

definition endswith :: "string \<Rightarrow> string \<Rightarrow> bool" where
  "endswith p s = (length p \<le> length s \<and> drop (length s - length p) s = p)"

text \<open>\<open>p in s\<close> for a non-empty pattern \<open>p\<close>.\<close>

fun contains :: "string \<Rightarrow> string \<Rightarrow> bool" where
  "contains p [] = (p = [])"
| "contains p (c # cs) = (startswith p (c # cs) \<or> contains p cs)"

text \<open>
  \<open>s.rsplit(sep, 1)\<close> for a non-empty separator: the two parts around the last
  occurrence of \<open>sep\<close>, or \<open>[s]\<close> when there is none.
\<close>

fun rsplit1 :: "string \<Rightarrow> string \<Rightarrow> string list" where
  "rsplit1 sep [] = [[]]"
| "rsplit1 sep (c # cs) =
     (case rsplit1 sep cs of
        [a, b] \<Rightarrow> [c # a, b]
      | _ \<Rightarrow> if startswith sep (c # cs) then [[], drop (length sep) (c # cs)]
             else [c # cs])"

text \<open>\<open>s.split(d)\<close> for a one-character separator.\<close>

fun split :: "char \<Rightarrow> string \<Rightarrow> string list" where
  "split d [] = [[]]"
| "split d (c # cs) =
     (if c = d then [] # split d cs
      else (case split d cs of
              l # ls \<Rightarrow> (c # l) # ls
            | [] \<Rightarrow> [[c]]))"

text \<open>Decimal digits of a number, and the format \<open>{count:03d}\<close>.\<close>

fun decimal :: "nat \<Rightarrow> string" where
  "decimal n =
     (if n < 10 then [char_of (48 + n)]
      else decimal (n div 10) @ [char_of (48 + n mod 10)])"

declare decimal.simps [simp del]

definition format_03d :: "nat \<Rightarrow> string" where
  "format_03d n = replicate (3 - length (decimal n)) (CHR ''0'') @ decimal n"

text \<open>\<open>os.path.join(a, b)\<close> on a POSIX system.\<close>

definition os_path_join :: "string \<Rightarrow> string \<Rightarrow> string" where
  "os_path_join a b =
     (if startswith ''/'' b then b
      else if a = [] \<or> endswith ''/'' a then a @ b
      else a @ ''/'' @ b)"


section \<open>The record parser: \<open>QuoteImageGenerator.process_csv\<close>\<close>

text \<open>
  Exceptions are values. \<open>process_csv\<close> calls \<open>generate_image\<close> for each record
  it finds; the renderer is a parameter of the parser's model, returning \<open>None\<close> when the
  call returns and \<open>Some e\<close> when it raises \<open>e\<close>.
\<close>

datatype error = ZeroDivisionError | ValueError | IndexError | OSError

type_synonym call = "string \<times> string \<times> string"

record env =
  generate_image :: "string \<Rightarrow> string \<Rightarrow> string \<Rightarrow> error option"
  output_dir :: string
  csv_filename :: string

text \<open>
  The loop's variables. \<open>calls\<close> is not a variable of the source: it logs the arguments
  (quote, speaker, output path) of every \<open>generate_image\<close> call made so far, in order.
\<close>

record parser_state =
  count :: nat
  current_quote :: string
  current_speaker :: string
  in_quote :: bool
  calls :: "call list"

definition output_path :: "env \<Rightarrow> nat \<Rightarrow> string" where
  "output_path E c =
     os_path_join (output_dir E) (csv_filename E @ ''_quote_'' @ format_03d c @ ''.png'')"

text \<open>
  The block the source repeats at each of its four emission sites:
  \<open>count += 1\<close>, build the output path, call \<open>generate_image\<close>. A raise leaves the
  function at once; the error carries the log of the calls made, the failing one last.
\<close>

definition emit ::
  "env \<Rightarrow> string \<Rightarrow> string \<Rightarrow> parser_state \<Rightarrow> (error \<times> call list) + parser_state" where
  "emit E quote speaker st =
     (let c = count st + 1;
          p = output_path E c;
          cl = calls st @ [(quote, speaker, p)]
      in case generate_image E quote speaker p of
           Some e \<Rightarrow> Inl (e, cl)
         | None \<Rightarrow> Inr (st\<lparr>count := c, calls := cl\<rparr>))"

text \<open>The three assignments after an emission from the buffer.\<close>

definition reset :: "parser_state \<Rightarrow> parser_state" where
  "reset st = st\<lparr>current_quote := [], current_speaker := [], in_quote := False\<rparr>"

text \<open>\<open>current_quote += "\n" + x if current_quote else x\<close>\<close>

definition append_line :: "string \<Rightarrow> string \<Rightarrow> string" where
  "append_line cq x = (if cq \<noteq> [] then cq @ newline # x else x)"

text \<open>The body of the \<open>for line in lines\<close> loop, for a line after the header.\<close>

definition process_line ::
  "env \<Rightarrow> parser_state \<Rightarrow> string \<Rightarrow> (error \<times> call list) + parser_state" where
  "process_line E st line0 =
     (if strip line0 = [] then
        (if strip (current_quote st) \<noteq> [] then
           map_sum id reset (emit E (strip (current_quote st)) (current_speaker st) st)
         else Inr st)
      else
        let opens = startswith [dquote] line0;
            inq = (opens \<or> in_quote st);
            line = (if opens then tl line0 else line0)
        in
          if inq then
            (if contains [dquote, CHR '',''] line \<or> endswith [dquote] line then
               (if contains [dquote, CHR '',''] line then
                  (case rsplit1 [dquote, CHR '',''] line of
                     [quote_part, speaker_part] \<Rightarrow>
                       map_sum id reset
                         (emit E (strip (append_line (current_quote st) quote_part))
                            (strip speaker_part) st)
                   | _ \<Rightarrow> Inl (ValueError, calls st))
                else
                  map_sum id reset
                    (emit E (strip (append_line (current_quote st) (butlast line)))
                       (current_speaker st) st))
             else
               Inr (st\<lparr>current_quote := append_line (current_quote st) line,
                       in_quote := True\<rparr>))
          else
            (if contains '','' line then
               (let parts = rsplit1 '','' line;
                    quote = strip (hd parts);
                    speaker = (if length parts > 1 then strip (parts ! 1) else [])
                in if quote \<noteq> [] then emit E quote speaker st else Inr st)
             else Inr st))"

fun process_lines ::
  "env \<Rightarrow> parser_state \<Rightarrow> string list \<Rightarrow> (error \<times> call list) + parser_state" where
  "process_lines E st [] = Inr st"
| "process_lines E st (l # ls) =
     (case process_line E st l of
        Inl e \<Rightarrow> Inl e
      | Inr st' \<Rightarrow> process_lines E st' ls)"

definition initial_state :: parser_state where
  "initial_state =
     \<lparr>count = 0, current_quote = [], current_speaker = [], in_quote = False, calls = []\<rparr>"

text \<open>The code after the loop: the last buffered quote, then \<open>return count\<close>.\<close>

definition finish :: "env \<Rightarrow> parser_state \<Rightarrow> (error \<times> call list) + parser_state" where
  "finish E st =
     (if strip (current_quote st) \<noteq> [] then
        emit E (strip (current_quote st)) (current_speaker st) st
      else Inr st)"

text \<open>
  \<open>parse_lines\<close> is the function on the list \<open>content.split("\n")\<close>, whose first element
  is the header; \<open>process_csv\<close> is the function on the file's content. The result is the
  error raised, or the count returned, each with the log of \<open>generate_image\<close> calls.
\<close>

definition parse_lines :: "env \<Rightarrow> string list \<Rightarrow> (error \<times> call list) + (nat \<times> call list)" where
  "parse_lines E lines =
     (case process_lines E initial_state (tl lines) of
        Inl e \<Rightarrow> Inl e
      | Inr st \<Rightarrow> map_sum id (\<lambda>st'. (count st', calls st')) (finish E st))"

definition process_csv :: "env \<Rightarrow> string \<Rightarrow> (error \<times> call list) + (nat \<times> call list)" where
  "process_csv E content = parse_lines E (split newline content)"

text \<open>A batch whose renderer never raises, for worked examples.\<close>

definition quiet_env :: env where
  "quiet_env =
     \<lparr>generate_image = (\<lambda>q s p. None), output_dir = ''output'', csv_filename = ''quotes''\<rparr>"

text \<open>
  The same batch with a renderer that never raises, and the replay of a list of calls
  against the real renderer: the first call that raises, with the calls made up to it.
\<close>


definition never_raising :: "env \<Rightarrow> env" where
  "never_raising E = E\<lparr>generate_image := (\<lambda>q s p. None)\<rparr>"

fun first_failure :: "env \<Rightarrow> call list \<Rightarrow> call list \<Rightarrow> (error \<times> call list) option" where
  "first_failure E pre [] = None"
| "first_failure E pre ((q, s, p) # cs) =
     (case generate_image E q s p of
        Some e \<Rightarrow> Some (e, pre @ [(q, s, p)])
      | None \<Rightarrow> first_failure E (pre @ [(q, s, p)]) cs)"

definition replay :: "env \<Rightarrow> call list \<Rightarrow> call list \<Rightarrow> 'a \<Rightarrow> (error \<times> call list) + 'a" where
  "replay E pre new r = (case first_failure E pre new of None \<Rightarrow> Inr r | Some x \<Rightarrow> Inl x)"

text \<open>A batch whose renderer fails to save the second image.\<close>

definition failing_env :: env where
  "failing_env =
     \<lparr>generate_image = (\<lambda>q s p. if p = ''output/quotes_quote_002.png'' then Some OSError else None),
      output_dir = ''output'', csv_filename = ''quotes''\<rparr>"

text \<open>
  \<open>tracks\<close> relates a step run with the never-raising renderer to the same step run with
  the real one: the first returns, and the second is its replay.
\<close>

definition tracks ::
  "env \<Rightarrow> parser_state \<Rightarrow> (error \<times> call list) + parser_state \<Rightarrow> (error \<times> call list) + parser_state \<Rightarrow> bool" where
  "tracks E st quiet loud \<longleftrightarrow>
     (\<exists>st' new. quiet = Inr st' \<and> calls st' = calls st @ new
        \<and> loud = replay E (calls st) new st')"

section \<open>Font resolution: \<open>_get_font_paths\<close> and \<open>_find_available_fonts\<close>\<close>

definition FONTS :: "string list" where
  "FONTS =
     [''Agbalumo-Regular'', ''Condiment-Regular'', ''Courgette-Regular'',
      ''EmilysCandy-Regular'', ''FreckleFace-Regular'', ''GamjaFlower-Regular'',
      ''IrishGrover-Regular'', ''Knewave-Regular'', ''Pacifico-Regular'',
      ''ShadowsIntoLight-Regular'']"

text \<open>
  The search directories, in order. The argument is the string of
  \<open>project_root / "fonts" / "ttf"\<close> when \<open>find_project_root\<close> finds a root.
\<close>

definition get_font_paths :: "string option \<Rightarrow> string list" where
  "get_font_paths project_fonts =
     (case project_fonts of Some p \<Rightarrow> [p] | None \<Rightarrow> [])
     @ [''/usr/share/fonts/truetype/dejavu'',
        ''/usr/share/fonts/truetype/liberation'',
        ''/usr/share/fonts/truetype/ubuntu'']"

text \<open>
  The three nested loops of \<open>_find_available_fonts\<close>, innermost first. The file system
  is the predicate \<open>path_exists\<close> (\<open>os.path.exists\<close>); \<open>available\<close> is the list being
  built. The \<open>break\<close> leaves the loop over the extensions only.
\<close>

fun try_extensions ::
  "(string \<Rightarrow> bool) \<Rightarrow> string \<Rightarrow> string \<Rightarrow> string list \<Rightarrow> string list \<Rightarrow> string list" where
  "try_extensions path_exists font_path font_name [] available = available"
| "try_extensions path_exists font_path font_name (ext # exts) available =
     (let font_file = os_path_join font_path (font_name @ ext)
      in if path_exists font_file then available @ [font_file]
         else try_extensions path_exists font_path font_name exts available)"

fun try_fonts ::
  "(string \<Rightarrow> bool) \<Rightarrow> string \<Rightarrow> string list \<Rightarrow> string list \<Rightarrow> string list" where
  "try_fonts path_exists font_path [] available = available"
| "try_fonts path_exists font_path (font_name # names) available =
     try_fonts path_exists font_path names
       (try_extensions path_exists font_path font_name [''.ttf'', ''.TTF''] available)"

fun try_paths ::
  "(string \<Rightarrow> bool) \<Rightarrow> string list \<Rightarrow> string list \<Rightarrow> string list" where
  "try_paths path_exists [] available = available"
| "try_paths path_exists (font_path # paths) available =
     try_paths path_exists paths
       (if path_exists font_path then try_fonts path_exists font_path FONTS available
        else available)"

text \<open>The result: the files found, or the single entry \<open>None\<close> for PIL's default font.\<close>

definition find_available_fonts :: "(string \<Rightarrow> bool) \<Rightarrow> string list \<Rightarrow> string option list" where
  "find_available_fonts path_exists font_paths =
     (let available = try_paths path_exists font_paths []
      in if available = [] then [None] else map Some available)"

text \<open>
  What the loops compute, said directly: for each search directory that exists, in
  order, and each candidate name, in order, the first of the two extension variants
  that exists in that directory.
\<close>

definition first_variant :: "(string \<Rightarrow> bool) \<Rightarrow> string \<Rightarrow> string \<Rightarrow> string list" where
  "first_variant path_exists font_path font_name =
     (if path_exists (os_path_join font_path (font_name @ ''.ttf''))
      then [os_path_join font_path (font_name @ ''.ttf'')]
      else if path_exists (os_path_join font_path (font_name @ ''.TTF''))
      then [os_path_join font_path (font_name @ ''.TTF'')]
      else [])"

definition resolved_per_directory :: "(string \<Rightarrow> bool) \<Rightarrow> string list \<Rightarrow> string list" where
  "resolved_per_directory path_exists font_paths =
     concat (map (\<lambda>font_path.
        if path_exists font_path
        then concat (map (first_variant path_exists font_path) FONTS)
        else []) font_paths)"

text \<open>A file system where one decorative font is installed in two search directories.\<close>

definition twice_installed :: "string \<Rightarrow> bool" where
  "twice_installed p =
     (p \<in> set [''/home/u/quotes/fonts/ttf'', ''/home/u/quotes/fonts/ttf/Pacifico-Regular.ttf'',
               ''/usr/share/fonts/truetype/ubuntu'',
               ''/usr/share/fonts/truetype/ubuntu/Pacifico-Regular.ttf''])"

section \<open>Python floats\<close>

text \<open>
  A finite Python \<open>float\<close> is a double, and every double is an integer times a power of
  two: the pair \<open>(m, e)\<close> stands for \<open>m * 2\<^sup>e\<close>. Each float operation of Python gives the
  double nearest to its exact result, ties to the even mantissa; \<open>round_ratio a b\<close> is
  that double for the exact result \<open>a / b\<close>, computed on integers: the exponent of the
  result, then the quotient at 53 bits with its remainder. (Overflow and subnormal
  numbers are outside the model: the numbers here are pixel counts, font sizes and their
  products.)
\<close>

type_synonym pyfloat = "int \<times> int"

definition float_value :: "pyfloat \<Rightarrow> rat" where
  "float_value x =
     (case x of (m, e) \<Rightarrow> if 0 \<le> e then of_int m * 2 ^ nat e else of_int m / 2 ^ nat (- e))"

function bit_length :: "int \<Rightarrow> int" where
  "bit_length n = (if n \<le> 0 then 0 else 1 + bit_length (n div 2))"
  by pat_completeness auto
termination
  by (relation "measure nat") auto

declare bit_length.simps [simp del]

definition round_ratio :: "int \<Rightarrow> int \<Rightarrow> pyfloat" where
  "round_ratio a b =
     (if a = 0 then (0, 0)
      else
        let n = \<bar>a\<bar>;
            e0 = bit_length n - bit_length b;
            e = (if (if 0 \<le> e0 then b * 2 ^ nat e0 \<le> n else b \<le> n * 2 ^ nat (- e0))
                 then e0 else e0 - 1);
            s = e - 52;
            num = (if 0 \<le> s then n else n * 2 ^ nat (- s));
            den = (if 0 \<le> s then b * 2 ^ nat s else b);
            q = num div den;
            r = num mod den;
            m = (if 2 * r < den then q
                 else if den < 2 * r then q + 1
                 else if even q then q else q + 1)
        in (sgn a * m, s))"

text \<open>The double nearest to \<open>m * 2\<^sup>e\<close>.\<close>

definition round_dyadic :: "int \<Rightarrow> int \<Rightarrow> pyfloat" where
  "round_dyadic m e =
     (if 0 \<le> e then round_ratio (m * 2 ^ nat e) 1 else round_ratio m (2 ^ nat (- e)))"

text \<open>
  \<open>float(n)\<close> for an integer; the product and the sum of two floats; \<open>a / b\<close> on two
  integers, \<open>b\<close> not zero; \<open>int(x)\<close>, which truncates towards zero; \<open>x <= n\<close> for a
  float and an integer, which Python decides exactly. A decimal literal such as \<open>0.9\<close>
  is the double nearest to it, \<open>round_ratio 9 10\<close>.
\<close>

definition float_of_int :: "int \<Rightarrow> pyfloat" where
  "float_of_int n = round_ratio n 1"

definition fmul :: "pyfloat \<Rightarrow> pyfloat \<Rightarrow> pyfloat" where
  "fmul x y = (case x of (m1, e1) \<Rightarrow> case y of (m2, e2) \<Rightarrow> round_dyadic (m1 * m2) (e1 + e2))"

definition fadd :: "pyfloat \<Rightarrow> pyfloat \<Rightarrow> pyfloat" where
  "fadd x y =
     (case x of (m1, e1) \<Rightarrow> case y of (m2, e2) \<Rightarrow>
        let e = min e1 e2
        in round_dyadic (m1 * 2 ^ nat (e1 - e) + m2 * 2 ^ nat (e2 - e)) e)"

definition int_truediv :: "int \<Rightarrow> int \<Rightarrow> pyfloat" where
  "int_truediv a b = round_ratio (a * sgn b) \<bar>b\<bar>"

definition py_int :: "pyfloat \<Rightarrow> int" where
  "py_int x =
     (case x of (m, e) \<Rightarrow> if 0 \<le> e then m * 2 ^ nat e else sgn m * (\<bar>m\<bar> div 2 ^ nat (- e)))"

definition float_le_int :: "pyfloat \<Rightarrow> int \<Rightarrow> bool" where
  "float_le_int x n =
     (case x of (m, e) \<Rightarrow> if 0 \<le> e then m * 2 ^ nat e \<le> n else m \<le> n * 2 ^ nat (- e))"


section \<open>Python's \<open>textwrap.wrap\<close>\<close>

text \<open>
  \<open>_wrap_text\<close> calls \<open>textwrap.wrap(paragraph, width=chars_per_line)\<close>, a function
  of Python's standard library. It is modelled from \<open>textwrap.py\<close> of CPython 3.11 for the
  default options of \<open>TextWrapper\<close>, which is how the repository calls it: tabs expanded,
  whitespace replaced, long words broken, breaks allowed after hyphens, whitespace
  dropped at line ends, no indent and no limit on the number of lines.
\<close>

definition space :: char where
  "space = CHR 0x20"

definition hyphen :: char where
  "hyphen = CHR 0x2D"

text \<open>The characters of \<open>textwrap._whitespace\<close>.\<close>

definition tw_whitespace :: "char \<Rightarrow> bool" where
  "tw_whitespace c = (c \<in> set [CHR 0x09, CHR 0x0A, CHR 0x0B, CHR 0x0C, CHR 0x0D, CHR 0x20])"

text \<open>
  The character classes of the regular expression \<open>wordsep_re\<close>, on the code points
  below 256: \<open>\d\<close>, \<open>\w\<close>, \<open>letter = [^\d\W]\<close> and \<open>word_punct = [\w!"'&.,?]\<close>.
\<close>

definition re_digit :: "char \<Rightarrow> bool" where
  "re_digit c = (let n = (of_char c :: nat) in 48 \<le> n \<and> n \<le> 57)"

definition re_word :: "char \<Rightarrow> bool" where
  "re_word c =
     (let n = (of_char c :: nat)
      in (48 \<le> n \<and> n \<le> 57) \<or> (65 \<le> n \<and> n \<le> 90) \<or> n = 95 \<or> (97 \<le> n \<and> n \<le> 122)
         \<or> n \<in> set [170, 178, 179, 181, 185, 186, 188, 189, 190]
         \<or> (192 \<le> n \<and> n \<le> 214) \<or> (216 \<le> n \<and> n \<le> 246) \<or> 248 \<le> n)"

definition letter :: "char \<Rightarrow> bool" where
  "letter c = (re_word c \<and> \<not> re_digit c)"

definition word_punct :: "char \<Rightarrow> bool" where
  "word_punct c =
     (re_word c \<or> c \<in> set [CHR 0x21, CHR 0x22, CHR 0x27, CHR 0x26, CHR 0x2E, CHR 0x2C, CHR 0x3F])"

text \<open>\<open>text.expandtabs(8)\<close>, with the column as an argument.\<close>

fun expandtabs :: "nat \<Rightarrow> string \<Rightarrow> string" where
  "expandtabs col [] = []"
| "expandtabs col (c # cs) =
     (if c = CHR 0x09 then
        replicate (8 - col mod 8) space @ expandtabs (col + (8 - col mod 8)) cs
      else if c = CHR 0x0A \<or> c = CHR 0x0D then c # expandtabs 0 cs
      else c # expandtabs (col + 1) cs)"

text \<open>\<open>_munge_whitespace\<close>: tabs expanded, then every whitespace character made a space.\<close>

definition munge_whitespace :: "string \<Rightarrow> string" where
  "munge_whitespace text = map (\<lambda>c. if tw_whitespace c then space else c) (expandtabs 0 text)"

text \<open>
  \<open>_split\<close> cuts the text with \<open>wordsep_re.split\<close> and drops the empty pieces. The
  expression matches at every position (a run of whitespace, or an em-dash between words,
  or a word up to its first break point), so the chunks are the successive matches. The
  functions below decide one match; \<open>ctx\<close> is the text before the position, reversed
  (the look-behinds read it), and \<open>rest\<close> the text from the position on.

  \<open>letter_pair\<close> is the look-ahead \<open>(?= letter -? letter)\<close> on the text after a hyphen,
  and, on the reversed text before it, the look-behind
  \<open>(?<= letter{2}-) | (?<= letter-letter-)\<close>.
\<close>

fun letter_pair :: "string \<Rightarrow> bool" where
  "letter_pair (a # b # c # _) = (letter a \<and> (letter b \<or> (b = hyphen \<and> letter c)))"
| "letter_pair [a, b] = (letter a \<and> letter b)"
| "letter_pair _ = False"

definition hyphen_break :: "string \<Rightarrow> string \<Rightarrow> bool" where
  "hyphen_break ctx rest =
     (case rest of
        [] \<Rightarrow> False
      | d # ds \<Rightarrow> d = hyphen \<and> letter_pair ctx \<and> letter_pair ds)"

text \<open>\<open>-{2,}\w\<close> at the start of the text.\<close>

definition dashes_then_word :: "string \<Rightarrow> bool" where
  "dashes_then_word rest =
     (let r = dropWhile (\<lambda>c. c = hyphen) rest
      in 2 \<le> length (takeWhile (\<lambda>c. c = hyphen) rest) \<and> r \<noteq> [] \<and> re_word (hd r))"

definition emdash_ahead :: "string \<Rightarrow> string \<Rightarrow> bool" where
  "emdash_ahead ctx rest = (ctx \<noteq> [] \<and> word_punct (hd ctx) \<and> dashes_then_word rest)"

text \<open>
  The third alternative, a word: the lazy \<open>[^ws]+?\<close> stops at the first position where
  the word may end: before a hyphen that may break it (the hyphen then belongs to the
  chunk), at whitespace or the end of the text, or before an em-dash. The result is the
  number of characters of the chunk from the position on.
\<close>

fun word_tail :: "string \<Rightarrow> string \<Rightarrow> nat" where
  "word_tail ctx [] = 0"
| "word_tail ctx (d # ds) =
     (if hyphen_break ctx (d # ds) then 1
      else if tw_whitespace d then 0
      else if emdash_ahead ctx (d # ds) then 0
      else Suc (word_tail (d # ctx) ds))"

text \<open>The number of characters that follow \<open>c\<close> in the chunk that starts with \<open>c\<close>.\<close>

definition chunk_tail :: "string \<Rightarrow> char \<Rightarrow> string \<Rightarrow> nat" where
  "chunk_tail ctx c cs =
     (if tw_whitespace c then length (takeWhile tw_whitespace cs)
      else if emdash_ahead ctx (c # cs) then length (takeWhile (\<lambda>x. x = hyphen) cs)
      else word_tail (c # ctx) cs)"

fun tw_split :: "string \<Rightarrow> string \<Rightarrow> string list" where
  "tw_split ctx [] = []"
| "tw_split ctx (c # cs) =
     (let m = chunk_tail ctx c cs
      in (c # take m cs) # tw_split (rev (take m cs) @ c # ctx) (drop m cs))"

text \<open>
  \<open>chunk.rfind('-', 0, n)\<close>: the last index below \<open>n\<close> that holds a hyphen, if any.
\<close>

definition rfind_hyphen :: "string \<Rightarrow> nat \<Rightarrow> nat option" where
  "rfind_hyphen chunk n =
     (let t = take n chunk
      in if hyphen \<in> set t
         then Some (length t - 1 - length (takeWhile (\<lambda>c. c \<noteq> hyphen) (rev t)))
         else None)"

text \<open>
  \<open>_handle_long_word\<close>, called when the chunk at the head of the stack fits on no line.
  The chunk is cut at the room left on the line, or after its last hyphen within that
  room when non-hyphens precede it. It returns the chunks and the line, both updated.
  (\<open>_wrap_chunks\<close> calls it with \<open>cur_len \<le> width\<close>.)
\<close>

definition handle_long_word ::
  "string list \<Rightarrow> string list \<Rightarrow> nat \<Rightarrow> nat \<Rightarrow> string list \<times> string list" where
  "handle_long_word chunks cur_line cur_len width =
     (let space_left = (if width < 1 then 1 else width - cur_len);
          chunk = hd chunks;
          cut = (if length chunk > space_left then
                   (case rfind_hyphen chunk space_left of
                      Some h \<Rightarrow>
                        if 0 < h \<and> list_ex (\<lambda>c. c \<noteq> hyphen) (take h chunk) then h + 1
                        else space_left
                    | None \<Rightarrow> space_left)
                 else space_left)
      in (drop cut chunk # tl chunks, cur_line @ [take cut chunk]))"

text \<open>
  The inner loop of \<open>_wrap_chunks\<close>: chunks are moved to the line while they fit.
\<close>

fun take_fitting ::
  "nat \<Rightarrow> string list \<Rightarrow> nat \<Rightarrow> string list \<Rightarrow> string list \<times> nat \<times> string list" where
  "take_fitting width cur_line cur_len [] = (cur_line, cur_len, [])"
| "take_fitting width cur_line cur_len (ch # chunks) =
     (if cur_len + length ch \<le> width
      then take_fitting width (cur_line @ [ch]) (cur_len + length ch) chunks
      else (cur_line, cur_len, ch # chunks))"

text \<open>
  One round of the outer loop of \<open>_wrap_chunks\<close>, on a non-empty stack of chunks:
  the chunks of the next line and the chunks left. \<open>started\<close> says that \<open>lines\<close> is
  not empty.
\<close>

definition next_line :: "nat \<Rightarrow> bool \<Rightarrow> string list \<Rightarrow> string list \<times> string list" where
  "next_line width started chunks0 =
     (let chunks1 = (if strip (hd chunks0) = [] \<and> started then tl chunks0 else chunks0);
          (cur_line1, cur_len, chunks2) = take_fitting width [] 0 chunks1;
          (chunks3, cur_line2) =
             (if chunks2 \<noteq> [] \<and> length (hd chunks2) > width
              then handle_long_word chunks2 cur_line1 cur_len width
              else (chunks2, cur_line1));
          cur_line3 = (if cur_line2 \<noteq> [] \<and> strip (last cur_line2) = []
                       then butlast cur_line2 else cur_line2)
      in (cur_line3, chunks3))"

definition chunks_size :: "string list \<Rightarrow> nat" where
  "chunks_size chunks = sum_list (map (\<lambda>c. Suc (length c)) chunks)"

function wrap_chunks :: "nat \<Rightarrow> string list \<Rightarrow> string list \<Rightarrow> string list" where
  "wrap_chunks width lines chunks =
     (if chunks = [] then lines
      else
        let (cur_line, chunks') = next_line width (lines \<noteq> []) chunks
        in wrap_chunks width (if cur_line \<noteq> [] then lines @ [concat cur_line] else lines)
             chunks')"
  by pat_completeness auto
termination
proof (relation "measure (\<lambda>(width, lines, chunks). chunks_size chunks)")
  show "wf (measure (\<lambda>(width, lines, chunks). chunks_size chunks))"
    by simp
next
  fix width :: nat and lines chunks :: "string list" and x cur_line chunks'
  assume ne: "chunks \<noteq> []" and x: "x = next_line width (lines \<noteq> []) chunks"
    and xe: "(cur_line, chunks') = x"
  have fit_le: "chunks_size (snd (snd (take_fitting w cl n cs))) \<le> chunks_size cs" for w cl n cs
  proof (induction cs arbitrary: cl n)
    case Nil
    show ?case by simp
  next
    case (Cons c cs)
    show ?case
      using Cons [of "cl @ [c]" "n + length c"] by (simp add: chunks_size_def)
  qed
  have fit_hd: "snd (snd (take_fitting w cl n cs)) = cs \<and> fst (take_fitting w cl n cs) = cl
        \<and> fst (snd (take_fitting w cl n cs)) = n \<and> w < n + length (hd cs)
      \<or> chunks_size (snd (snd (take_fitting w cl n cs))) < chunks_size cs"
    if "snd (snd (take_fitting w cl n cs)) \<noteq> []" for w cl n cs
  proof (cases cs)
    case Nil
    then show ?thesis using that by simp
  next
    case (Cons c cs')
    show ?thesis
    proof (cases "n + length c \<le> w")
      case True
      have "chunks_size (snd (snd (take_fitting w (cl @ [c]) (n + length c) cs'))) \<le> chunks_size cs'"
        by (rule fit_le)
      then show ?thesis using True Cons by (simp add: chunks_size_def)
    next
      case False
      then show ?thesis using Cons by simp
    qed
  qed
  have long_le: "cs \<noteq> [] \<Longrightarrow> chunks_size (fst (handle_long_word cs cl n w)) \<le> chunks_size cs" for cs cl n w
    by (cases cs) (auto simp: handle_long_word_def Let_def chunks_size_def)
  have long_lt: "cs \<noteq> [] \<Longrightarrow> w < length (hd cs) \<Longrightarrow>
      chunks_size (fst (handle_long_word cs cl 0 w)) < chunks_size cs" for cs cl w
    by (cases cs) (auto simp: handle_long_word_def Let_def chunks_size_def split: option.splits)
  define chunks1 where "chunks1 = (if strip (hd chunks) = [] \<and> lines \<noteq> [] then tl chunks else chunks)"
  obtain cl1 n1 chunks2 where tf: "take_fitting width [] 0 chunks1 = (cl1, n1, chunks2)"
    by (cases "take_fitting width [] 0 chunks1") auto
  have c1: "chunks_size chunks1 \<le> chunks_size chunks"
    using ne by (cases chunks) (auto simp: chunks1_def chunks_size_def)
  have c2: "chunks_size chunks2 \<le> chunks_size chunks1"
    using fit_le [of width "[]" 0 chunks1] tf by simp
  have c3: "chunks' = (if chunks2 \<noteq> [] \<and> length (hd chunks2) > width
              then fst (handle_long_word chunks2 cl1 n1 width) else chunks2)"
    using x xe tf by (auto simp: next_line_def chunks1_def [symmetric] Let_def split: prod.splits)
  have "chunks_size chunks' < chunks_size chunks"
  proof (cases "chunks2 = []")
    case True
    then have "chunks' = []" using c3 by simp
    then show ?thesis using ne by (cases chunks) (auto simp: chunks_size_def)
  next
    case False
    then consider (same) "chunks2 = chunks1" "cl1 = []" "n1 = 0" "width < length (hd chunks1)"
      | (less) "chunks_size chunks2 < chunks_size chunks1"
      using fit_hd [of width "[]" 0 chunks1] tf by auto
    then show ?thesis
    proof cases
      case same
      have long: "width < length (hd chunks2)"
        using same by simp
      then have "chunks' = fst (handle_long_word chunks2 [] 0 width)"
        using c3 False same by simp
      then have "chunks_size chunks' < chunks_size chunks2"
        using long_lt [OF False long] by simp
      then show ?thesis using same c1 by simp
    next
      case less
      have "chunks_size chunks' \<le> chunks_size chunks2"
        using c3 long_le [OF False] by simp
      then show ?thesis using less c1 by simp
    qed
  qed
  then show "((width, if cur_line \<noteq> [] then lines @ [concat cur_line] else lines, chunks'),
          width, lines, chunks) \<in> measure (\<lambda>(width, lines, chunks). chunks_size chunks)"
    by simp
qed

declare wrap_chunks.simps [simp del]

text \<open>
  \<open>textwrap.wrap(text, width)\<close>. \<open>_wrap_chunks\<close> raises \<open>ValueError\<close> for a width that
  is not positive.
\<close>

definition textwrap_wrap :: "string \<Rightarrow> nat \<Rightarrow> error + string list" where
  "textwrap_wrap text width =
     (if width = 0 then Inl ValueError
      else Inr (wrap_chunks width [] (tw_split [] (munge_whitespace text))))"

section \<open>The text wrapper: \<open>QuoteImageGenerator._wrap_text\<close>\<close>

text \<open>
  A loaded PIL font, as far as the code reads it: \<open>font.getbbox(text)[2]\<close>, the right edge
  of the bounding box, and \<open>font.getbbox(text)[3]\<close>, its bottom edge, both in pixels.
\<close>

record font =
  bbox_right :: "string \<Rightarrow> int"
  bbox_bottom :: "string \<Rightarrow> int"

text \<open>
  \<open>max(10, int(max_width / avg_char_width))\<close>, for a reference width that is not zero,
  and \<open>int(chars_per_line * 0.9)\<close>.
\<close>

definition estimate_chars_per_line :: "int \<Rightarrow> int \<Rightarrow> nat" where
  "estimate_chars_per_line max_width avg_char_width =
     nat (max 10 (py_int (int_truediv max_width avg_char_width)))"

definition shrink :: "nat \<Rightarrow> nat" where
  "shrink chars_per_line = nat (py_int (fmul (float_of_int (int chars_per_line)) (round_ratio 9 10)))"

text \<open>
  The loop \<open>for line in wrapped\<close>. It runs over the list that \<open>wrapped\<close> named when the
  loop started (the first argument \<open>todo\<close>); the assignment in its body gives the name
  \<open>wrapped\<close> to a new list and leaves the one being iterated alone. The \<open>while\<close> in the
  body ends with \<open>break\<close>, so it runs at most once for each line. The result is the
  final value of \<open>wrapped\<close> and of \<open>final_wrapped\<close>.
\<close>

fun adjust ::
  "font \<Rightarrow> int \<Rightarrow> string \<Rightarrow> string list \<Rightarrow> nat \<Rightarrow> string list \<Rightarrow> string list
     \<Rightarrow> error + (string list \<times> string list)" where
  "adjust font max_width paragraph [] chars_per_line wrapped final_wrapped =
     Inr (wrapped, final_wrapped)"
| "adjust font max_width paragraph (line # todo) chars_per_line wrapped final_wrapped =
     (if bbox_right font line > max_width \<and> length line > 10 then
        (let chars_per_line' = shrink chars_per_line
         in case textwrap_wrap paragraph chars_per_line' of
              Inl e \<Rightarrow> Inl e
            | Inr wrapped' \<Rightarrow>
                adjust font max_width paragraph todo chars_per_line' wrapped'
                  (final_wrapped @ [line]))
      else adjust font max_width paragraph todo chars_per_line wrapped (final_wrapped @ [line]))"

text \<open>The body of the loop over the paragraphs, for a paragraph that is not blank.\<close>

definition wrap_paragraph :: "font \<Rightarrow> int \<Rightarrow> string \<Rightarrow> error + string list" where
  "wrap_paragraph font max_width paragraph =
     (let avg_char_width = bbox_right font ''x''
      in if avg_char_width = 0 then Inl ZeroDivisionError
         else
           let chars_per_line = estimate_chars_per_line max_width avg_char_width
           in case textwrap_wrap paragraph chars_per_line of
                Inl e \<Rightarrow> Inl e
              | Inr wrapped \<Rightarrow>
                  (case adjust font max_width paragraph wrapped chars_per_line wrapped [] of
                     Inl e \<Rightarrow> Inl e
                   | Inr (wrapped', final_wrapped) \<Rightarrow>
                       Inr (if final_wrapped \<noteq> [] then final_wrapped else wrapped')))"

fun wrap_paragraphs :: "font \<Rightarrow> int \<Rightarrow> string list \<Rightarrow> string list \<Rightarrow> error + string list" where
  "wrap_paragraphs font max_width [] lines = Inr lines"
| "wrap_paragraphs font max_width (paragraph # paragraphs) lines =
     (if strip paragraph = [] then wrap_paragraphs font max_width paragraphs (lines @ [[]])
      else
        (case wrap_paragraph font max_width paragraph of
           Inl e \<Rightarrow> Inl e
         | Inr new_lines \<Rightarrow> wrap_paragraphs font max_width paragraphs (lines @ new_lines)))"

definition wrap_text :: "string \<Rightarrow> font \<Rightarrow> int \<Rightarrow> error + string list" where
  "wrap_text text font max_width = wrap_paragraphs font max_width (split newline text) []"


section \<open>The layout fitter: \<open>QuoteImageGenerator._calculate_font_size\<close>\<close>

text \<open>
  What the fitter reads of the generator and of the world: the resolved fonts, the picks
  of \<open>random.choice\<close> (the pick of its call number \<open>k\<close>, as an index),
  \<open>ImageFont.truetype\<close> (\<open>None\<close> when it raises) and \<open>ImageFont.load_default\<close>.
\<close>

record provider =
  available_fonts :: "string option list"
  speaker_font_path :: "string option"
  random_index :: "nat \<Rightarrow> nat"
  truetype :: "string \<Rightarrow> int \<Rightarrow> font option"
  load_default :: font

text \<open>\<open>_get_random_font\<close>; \<open>random.choice\<close> raises \<open>IndexError\<close> on an empty list.\<close>

definition get_random_font :: "provider \<Rightarrow> nat \<Rightarrow> int \<Rightarrow> error + font" where
  "get_random_font P k font_size =
     (if available_fonts P = [] then Inl IndexError
      else
        (case available_fonts P ! (random_index P k mod length (available_fonts P)) of
           None \<Rightarrow> Inr (load_default P)
         | Some font_path \<Rightarrow>
             (case truetype P font_path font_size of
                Some f \<Rightarrow> Inr f
              | None \<Rightarrow> Inr (load_default P))))"

definition get_speaker_font :: "provider \<Rightarrow> int \<Rightarrow> font" where
  "get_speaker_font P font_size =
     (case speaker_font_path P of
        None \<Rightarrow> load_default P
      | Some path \<Rightarrow>
          if path = [] then load_default P
          else (case truetype P path font_size of
                  Some f \<Rightarrow> f
                | None \<Rightarrow> load_default P))"

text \<open>
  \<open>s.upper()\<close>, on the letters that have their capital below code point 256 (the others
  there have no capital among \<open>N\<close>, \<open>U\<close>, \<open>L\<close>, which is all the code compares with).
\<close>

definition upper_char :: "char \<Rightarrow> char" where
  "upper_char c =
     (let n = (of_char c :: nat)
      in if (97 \<le> n \<and> n \<le> 122) \<or> (224 \<le> n \<and> n \<le> 246) \<or> (248 \<le> n \<and> n \<le> 254)
         then char_of (n - 32) else c)"

text \<open>\<open>speaker and speaker.strip() and speaker.upper() != "NULL"\<close>\<close>

definition has_speaker :: "string option \<Rightarrow> bool" where
  "has_speaker speaker =
     (case speaker of
        None \<Rightarrow> False
      | Some s \<Rightarrow> s \<noteq> [] \<and> strip s \<noteq> [] \<and> map upper_char s \<noteq> ''NULL'')"

text \<open>
  The result. The source returns the two fonts and the lines; the model also records the
  sizes it asked the fonts at, and how many times the body of the \<open>while\<close> loop ran.
\<close>

record fitted =
  quote_font_size :: int
  speaker_font_size :: int
  quote_font :: font
  speaker_font :: font
  fitted_lines :: "string list"
  size_steps :: nat

text \<open>
  \<open>total_text_height\<close> as the loop body computes it, in floats, and the test
  \<open>total_text_height <= max_height\<close>.
\<close>

definition total_text_height :: "font \<Rightarrow> font \<Rightarrow> string list \<Rightarrow> string option \<Rightarrow> pyfloat" where
  "total_text_height qfont sfont ls speaker =
     (let line_height = fmul (float_of_int (bbox_bottom qfont ''Ay'')) (round_ratio 13 10);
          total = fmul (float_of_int (int (length ls))) line_height
      in if has_speaker speaker
         then fadd total (float_of_int (bbox_bottom sfont (the speaker) * 2))
         else total)"

text \<open>\<open>max(m, int(size * 0.4))\<close>\<close>

definition speaker_size :: "int \<Rightarrow> int \<Rightarrow> int" where
  "speaker_size m font_size = max m (py_int (fmul (float_of_int font_size) (round_ratio 4 10)))"

text \<open>
  The \<open>while\<close> loop and the fallback after it. \<open>k\<close> counts the rounds done, which is
  also the number of fonts drawn so far.
\<close>

function fit_loop ::
  "provider \<Rightarrow> string \<Rightarrow> string option \<Rightarrow> int \<Rightarrow> int \<Rightarrow> int \<Rightarrow> nat \<Rightarrow> error + fitted" where
  "fit_loop P text speaker max_width max_height font_size k =
     (if font_size \<ge> 20 then
        (case get_random_font P k font_size of
           Inl e \<Rightarrow> Inl e
         | Inr qfont \<Rightarrow>
             let sfont = get_speaker_font P (speaker_size 14 font_size)
             in case wrap_text text qfont max_width of
                  Inl e \<Rightarrow> Inl e
                | Inr ls \<Rightarrow>
                    if float_le_int (total_text_height qfont sfont ls speaker) max_height
                    then Inr \<lparr>quote_font_size = font_size, speaker_font_size = speaker_size 14 font_size,
                              quote_font = qfont, speaker_font = sfont, fitted_lines = ls,
                              size_steps = k + 1\<rparr>
                    else fit_loop P text speaker max_width max_height (font_size - 2) (k + 1))
      else
        (case get_random_font P k 20 of
           Inl e \<Rightarrow> Inl e
         | Inr qfont \<Rightarrow>
             let sfont = get_speaker_font P (speaker_size 12 20)
             in case wrap_text text qfont max_width of
                  Inl e \<Rightarrow> Inl e
                | Inr ls \<Rightarrow>
                    Inr \<lparr>quote_font_size = 20, speaker_font_size = speaker_size 12 20,
                         quote_font = qfont, speaker_font = sfont, fitted_lines = ls,
                         size_steps = k\<rparr>))"
  by pat_completeness auto
termination
  by (relation "measure (\<lambda>(P, text, speaker, max_width, max_height, font_size, k). nat (font_size - 18))") auto

declare fit_loop.simps [simp del]

definition calculate_font_size ::
  "provider \<Rightarrow> string \<Rightarrow> string option \<Rightarrow> int \<Rightarrow> int \<Rightarrow> error + fitted" where
  "calculate_font_size P text speaker max_width max_height =
     fit_loop P text speaker max_width max_height 120 0"

text \<open>
  A font for worked examples. At size \<open>s\<close> a capital \<open>W\<close> is \<open>s\<close> pixels wide and every
  other character \<open>s div 2\<close>; a line is as wide as its characters together and \<open>s\<close>
  pixels high. The provider has this one font, as quote font and as speaker font.
\<close>

definition example_font :: "int \<Rightarrow> font" where
  "example_font s =
     \<lparr>bbox_right = (\<lambda>t. sum_list (map (\<lambda>c. if c = CHR ''W'' then s else s div 2) t)),
      bbox_bottom = (\<lambda>t. s)\<rparr>"

definition example_provider :: provider where
  "example_provider =
     \<lparr>available_fonts = [Some ''fonts/ttf/Example-Regular.ttf''],
      speaker_font_path = Some ''/usr/share/fonts/truetype/dejavu/DejaVuSans.ttf'',
      random_index = (\<lambda>k. 0),
      truetype = (\<lambda>path s. Some (example_font s)),
      load_default = example_font 10\<rparr>"

text \<open>
  The generator of a system with no decorative font installed, and DejaVu Sans as the
  speaker font: every quote font is PIL's default font, here a bitmap font with glyphs
  6 pixels wide and 11 pixels high; the speaker font scales as the example font does.
\<close>

definition bitmap_font :: font where
  "bitmap_font = \<lparr>bbox_right = (\<lambda>t. 6 * int (length t)), bbox_bottom = (\<lambda>t. 11)\<rparr>"

definition default_provider :: provider where
  "default_provider =
     \<lparr>available_fonts = [None],
      speaker_font_path = Some ''/usr/share/fonts/truetype/dejavu/DejaVuSans.ttf'',
      random_index = (\<lambda>k. 0),
      truetype = (\<lambda>path s. Some (example_font s)),
      load_default = bitmap_font\<rparr>"

text \<open>A quote of 38 one-letter lines.\<close>

definition long_quote :: string where
  "long_quote = concat (replicate 37 (''a'' @ [newline])) @ ''a''"

text \<open>
  One round of the fitter's loop, number \<open>j\<close> from 0, seen from outside: the size it
  tries, and whether it neither raises nor accepts.
\<close>

definition round_size :: "nat \<Rightarrow> int" where
  "round_size j = 120 - 2 * int j"

definition round_rejects :: "provider \<Rightarrow> string \<Rightarrow> string option \<Rightarrow> int \<Rightarrow> int \<Rightarrow> nat \<Rightarrow> bool" where
  "round_rejects P text speaker max_width max_height j =
     (case get_random_font P j (round_size j) of
        Inl e \<Rightarrow> False
      | Inr qfont \<Rightarrow>
          (case wrap_text text qfont max_width of
             Inl e \<Rightarrow> False
           | Inr ls \<Rightarrow>
               \<not> float_le_int
                   (total_text_height qfont (get_speaker_font P (speaker_size 14 (round_size j)))
                      ls speaker) max_height))"

(*DEFS-END*)

section \<open>Facts about the string operations\<close>

lemma contains_single: "contains [c] s \<longleftrightarrow> c \<in> set s"
  by (induction s) (auto simp: startswith_def)

lemma rsplit1_absent: "\<not> contains sep s \<Longrightarrow> rsplit1 sep s = [s]"
  by (induction s) (auto simp: startswith_def)

lemma rsplit1_last:
  assumes "sep \<noteq> []" "\<not> contains sep (tl sep @ r)"
  shows "rsplit1 sep (l @ sep @ r) = [l, r]"
proof (induction l)
  case Nil
  obtain a t where sep: "sep = a # t" using assms(1) by (cases sep) auto
  have "rsplit1 sep (t @ r) = [t @ r]"
    using assms(2) sep by (simp add: rsplit1_absent)
  then show ?case
    by (simp add: sep startswith_def)
next
  case (Cons c l)
  then show ?case by simp
qed

lemma rsplit1_comma: "CHR '','' \<notin> set r \<Longrightarrow> rsplit1 '','' (l @ CHR '','' # r) = [l, r]"
  using rsplit1_last [of "'',''" r l] by (simp add: contains_single)

lemma contains_append: "sep \<noteq> [] \<Longrightarrow> contains sep (l @ sep @ r)"
proof (induction l)
  case Nil
  then show ?case by (cases sep) (auto simp: startswith_def)
next
  case (Cons c l)
  then show ?case by simp
qed

lemma contains_rsplit1: "sep \<noteq> [] \<Longrightarrow> contains sep s \<Longrightarrow> \<exists>a b. rsplit1 sep s = [a, b]"
  by (induction s) (auto simp: startswith_def split: list.splits)

lemma all_dropWhile: "(\<forall>c\<in>set (dropWhile P s). P c) \<longleftrightarrow> (\<forall>c\<in>set s. P c)"
  by (induction s) auto

lemma strip_empty_iff: "strip s = [] \<longleftrightarrow> (\<forall>c\<in>set s. isspace c)"
  by (simp add: strip_def dropWhile_eq_Nil_conv all_dropWhile)


section \<open>The record parser\<close>

text \<open>
  C10. A non-blank line met in scanning state (\<open>in_quote\<close> false) that does not start
  with a quote mark and holds no comma is ignored: the loop body leaves every variable
  as it was, calls \<open>generate_image\<close> for nothing, and the line's text is not kept.
\<close>

theorem plain_line_without_comma_ignored:
  assumes "strip line \<noteq> []" and "\<not> in_quote st"
    and "\<not> startswith [dquote] line" and "CHR '','' \<notin> set line"
  shows "process_line E st line = Inr st"
  using assms by (simp add: process_line_def contains_single)

theorem plain_line_without_comma_ignored_witness:
  "process_line quiet_env initial_state ''no delimiter here'' = Inr initial_state"
  using plain_line_without_comma_ignored [of "''no delimiter here''" initial_state quiet_env]
proof -
  have h1: "strip ''no delimiter here'' \<noteq> []"
    by code_simp
  have h2: "\<not> in_quote initial_state"
    by (simp add: initial_state_def)
  have h3: "\<not> startswith [dquote] ''no delimiter here''"
    by code_simp
  have h4: "CHR '','' \<notin> set ''no delimiter here''"
    by simp
  show ?thesis
    by (rule plain_line_without_comma_ignored [OF h1 h2 h3 h4])
qed


text \<open>
  C6. A plain line (non-blank, not starting with a quote mark) met in scanning state and
  holding a comma is split at its last comma: the text left of it, stripped, is the quote
  and the text right of it, stripped, is the speaker; when the quote is not empty,
  \<open>generate_image\<close> is called for it at once, under the next count. A header line
  followed by \<open>Be yourself, Oscar Wilde\<close> gives the one record
  (\<open>Be yourself\<close>, \<open>Oscar Wilde\<close>).
\<close>

theorem plain_line_splits_at_last_comma:
  assumes "\<not> in_quote st" and "strip line \<noteq> []" and "\<not> startswith [dquote] line"
    and "line = l @ CHR '','' # r" and "CHR '','' \<notin> set r"
  shows "process_line E st line = (if strip l \<noteq> [] then emit E (strip l) (strip r) st else Inr st)
    \<and> (strip l \<noteq> [] \<and> generate_image E (strip l) (strip r) (output_path E (count st + 1)) = None \<longrightarrow>
         process_line E st line =
           Inr (st\<lparr>count := count st + 1,
                   calls := calls st @ [(strip l, strip r, output_path E (count st + 1))]\<rparr>))
    \<and> process_csv quiet_env (''header'' @ newline # ''Be yourself, Oscar Wilde'' @ [newline]) =
         Inr (1, [(''Be yourself'', ''Oscar Wilde'', ''output/quotes_quote_001.png'')])"
proof -
  have c: "contains '','' line"
    using assms(4) by (simp add: contains_single)
  have r: "rsplit1 '','' line = [l, r]"
    using assms(4,5) by (simp add: rsplit1_comma)
  have 1: "process_line E st line = (if strip l \<noteq> [] then emit E (strip l) (strip r) st else Inr st)"
    using assms(1,2,3) c r by (simp add: process_line_def)
  have 2: "process_csv quiet_env (''header'' @ newline # ''Be yourself, Oscar Wilde'' @ [newline]) =
         Inr (1, [(''Be yourself'', ''Oscar Wilde'', ''output/quotes_quote_001.png'')])"
    by code_simp
  show ?thesis
    using 1 2 by (simp add: emit_def)
qed

theorem plain_line_splits_at_last_comma_witness:
  "process_line quiet_env initial_state ''Stay hungry, stay foolish, Steve Jobs'' =
     Inr (initial_state\<lparr>count := 1,
            calls := [(''Stay hungry, stay foolish'', ''Steve Jobs'', ''output/quotes_quote_001.png'')]\<rparr>)"
proof -
  have h1: "\<not> in_quote initial_state"
    by (simp add: initial_state_def)
  have h2: "strip ''Stay hungry, stay foolish, Steve Jobs'' \<noteq> []"
    by code_simp
  have h3: "\<not> startswith [dquote] ''Stay hungry, stay foolish, Steve Jobs''"
    by code_simp
  have h4: "''Stay hungry, stay foolish, Steve Jobs'' = ''Stay hungry, stay foolish'' @ CHR '','' # '' Steve Jobs''"
    by simp
  have h5: "CHR '','' \<notin> set '' Steve Jobs''"
    by simp
  have l: "strip ''Stay hungry, stay foolish'' = ''Stay hungry, stay foolish''"
    and r: "strip '' Steve Jobs'' = ''Steve Jobs''"
    by code_simp+
  have e: "emit quiet_env ''Stay hungry, stay foolish'' ''Steve Jobs'' initial_state =
     Inr (initial_state\<lparr>count := 1,
            calls := [(''Stay hungry, stay foolish'', ''Steve Jobs'', ''output/quotes_quote_001.png'')]\<rparr>)"
    by code_simp
  have "process_line quiet_env initial_state ''Stay hungry, stay foolish, Steve Jobs'' =
     (if strip ''Stay hungry, stay foolish'' \<noteq> []
      then emit quiet_env (strip ''Stay hungry, stay foolish'') (strip '' Steve Jobs'') initial_state
      else Inr initial_state)"
    using plain_line_splits_at_last_comma [OF h1 h2 h3 h4 h5, of quiet_env] by (rule conjunct1)
  then show ?thesis
    by (simp only: l r e) simp
qed


text \<open>
  C4. A record whose quote text is empty should be dropped. The quoted-field path does not
  check: on the content \<open>header\<close>, \<open>"",Someone\<close> the parser counts one record and
  calls \<open>generate_image\<close> with the empty quote.
\<close>

theorem empty_quoted_field_is_rendered:
  "process_csv quiet_env (''header'' @ newline # [dquote, dquote] @ '',Someone'' @ [newline]) =
     Inr (1, [([], ''Someone'', ''output/quotes_quote_001.png'')])"
  by code_simp


lemma rsplit1_dquote_comma:
  "\<not> contains [dquote, CHR '',''] s \<Longrightarrow> rsplit1 [dquote, CHR '',''] (q @ [dquote, CHR '',''] @ s) = [q, s]"
  using rsplit1_last [of "[dquote, CHR '','']" s q]
  by (simp add: startswith_def dquote_def)

lemma endswith_snoc: "endswith [c] (q @ [c])"
  by (simp add: endswith_def)

text \<open>
  C5, as stated, fails: a blank line inside a quoted field holds no closing pattern, yet
  it is not accumulated. The buffer is emitted as a record of its own and the parser goes
  back to scanning, so the rest of the field is read as a plain line.
\<close>

theorem quoted_field_blank_line_counterexample:
  "process_line quiet_env
     \<lparr>count = 0, current_quote = ''Line one'', current_speaker = [], in_quote = True, calls = []\<rparr>
     [] =
   Inr \<lparr>count = 1, current_quote = [], current_speaker = [], in_quote = False,
        calls = [(''Line one'', [], ''output/quotes_quote_001.png'')]\<rparr>
   \<and> parse_lines quiet_env
       [''header'', dquote # ''Line one'', [], ''Line two'' @ dquote # '',Mark Twain'', []] =
     Inr (2, [(''Line one'', [], ''output/quotes_quote_001.png''),
              (''Line two'' @ [dquote], ''Mark Twain'', ''output/quotes_quote_002.png'')])
   \<and> \<not> contains [dquote, CHR '',''] [] \<and> \<not> endswith [dquote] []"
  by code_simp

text \<open>
  The loop body on a line that starts with a quote mark or is met in the quoted-field
  state, where \<open>line\<close> is that line without its leading quote mark, if it has one.
\<close>

lemma quoted_line_step:
  assumes "startswith [dquote] line0 \<or> in_quote st"
    and "line = (if startswith [dquote] line0 then tl line0 else line0)"
  shows
    "(strip line0 \<noteq> [] \<and> \<not> contains [dquote, CHR '',''] line \<and> \<not> endswith [dquote] line \<longrightarrow>
        process_line E st line0 =
          Inr (st\<lparr>current_quote := append_line (current_quote st) line, in_quote := True\<rparr>))
   \<and> (\<forall>q s. strip line0 \<noteq> [] \<and> line = q @ [dquote, CHR '',''] @ s \<and> \<not> contains [dquote, CHR '',''] s \<longrightarrow>
        process_line E st line0 =
          map_sum id reset (emit E (strip (append_line (current_quote st) q)) (strip s) st))
   \<and> (\<forall>q. strip line0 \<noteq> [] \<and> line = q @ [dquote] \<and> \<not> contains [dquote, CHR '',''] line \<longrightarrow>
        process_line E st line0 =
          map_sum id reset (emit E (strip (append_line (current_quote st) q)) (current_speaker st) st))
   \<and> (strip line0 = [] \<longrightarrow>
        process_line E st line0 =
          (if strip (current_quote st) \<noteq> []
           then map_sum id reset (emit E (strip (current_quote st)) (current_speaker st) st)
           else Inr st))"
proof -
  have a: "strip line0 \<noteq> [] \<and> \<not> contains [dquote, CHR '',''] line \<and> \<not> endswith [dquote] line \<longrightarrow>
        process_line E st line0 =
          Inr (st\<lparr>current_quote := append_line (current_quote st) line, in_quote := True\<rparr>)"
    using assms by (auto simp: process_line_def)
  have b: "\<forall>q s. strip line0 \<noteq> [] \<and> line = q @ [dquote, CHR '',''] @ s \<and> \<not> contains [dquote, CHR '',''] s \<longrightarrow>
        process_line E st line0 =
          map_sum id reset (emit E (strip (append_line (current_quote st) q)) (strip s) st)"
  proof (intro allI impI)
    fix q s
    assume h: "strip line0 \<noteq> [] \<and> line = q @ [dquote, CHR '',''] @ s \<and> \<not> contains [dquote, CHR '',''] s"
    then have c: "contains [dquote, CHR '',''] line"
      using contains_append [of "[dquote, CHR '','']" q s] by simp
    have r: "rsplit1 [dquote, CHR '',''] line = [q, s]"
      using h rsplit1_dquote_comma [of s q] by simp
    show "process_line E st line0 =
          map_sum id reset (emit E (strip (append_line (current_quote st) q)) (strip s) st)"
      using assms h c r by (auto simp: process_line_def Let_def)
  qed
  have c: "\<forall>q. strip line0 \<noteq> [] \<and> line = q @ [dquote] \<and> \<not> contains [dquote, CHR '',''] line \<longrightarrow>
        process_line E st line0 =
          map_sum id reset (emit E (strip (append_line (current_quote st) q)) (current_speaker st) st)"
  proof (intro allI impI)
    fix q
    assume h: "strip line0 \<noteq> [] \<and> line = q @ [dquote] \<and> \<not> contains [dquote, CHR '',''] line"
    then have e: "endswith [dquote] line" and b: "butlast line = q"
      by (simp_all add: endswith_snoc)
    show "process_line E st line0 =
          map_sum id reset (emit E (strip (append_line (current_quote st) q)) (current_speaker st) st)"
      using assms h e b by (auto simp: process_line_def Let_def)
  qed
  have d: "strip line0 = [] \<longrightarrow>
        process_line E st line0 =
          (if strip (current_quote st) \<noteq> []
           then map_sum id reset (emit E (strip (current_quote st)) (current_speaker st) st)
           else Inr st)"
    by (simp add: process_line_def)
  from a b c d show ?thesis by blast
qed

text \<open>
  C5, amended. The theorem is about the line that opens a quoted field (met in scanning
  state, a quote mark followed by \<open>line\<close>) and about a line met in the quoted-field
  state that does not itself start with a quote mark (then \<open>line\<close> is the whole line).
  If the line is not blank and \<open>line\<close> holds no closing pattern, \<open>line\<close> is joined
  to the buffer with a newline and the parser is in the quoted-field state. If \<open>line\<close>
  closes with the quote-comma pattern, the text after its last occurrence, stripped, is
  the speaker; if it closes with a bare trailing quote mark, the speaker is the
  accumulated one; in both cases one record is emitted and the parser is reset to
  scanning. A blank line is never accumulated: when the buffer is not blank it emits the
  buffer as a record and resets the parser to scanning; when the buffer is blank it is
  skipped and the state stays as it was. The lines \<open>header\<close>, \<open>"Line one\<close>,
  \<open>Line two",Mark Twain\<close> and the empty line give one record.
\<close>

theorem quoted_field_accumulates_until_close:
  assumes "(\<not> in_quote st \<and> line0 = dquote # line)
         \<or> (in_quote st \<and> \<not> startswith [dquote] line0 \<and> line = line0)"
  shows
    "(strip line0 \<noteq> [] \<and> \<not> contains [dquote, CHR '',''] line \<and> \<not> endswith [dquote] line \<longrightarrow>
        process_line E st line0 =
          Inr (st\<lparr>current_quote := append_line (current_quote st) line, in_quote := True\<rparr>))
   \<and> (\<forall>q s. strip line0 \<noteq> [] \<and> line = q @ [dquote, CHR '',''] @ s \<and> \<not> contains [dquote, CHR '',''] s \<longrightarrow>
        process_line E st line0 =
          map_sum id reset (emit E (strip (append_line (current_quote st) q)) (strip s) st))
   \<and> (\<forall>q. strip line0 \<noteq> [] \<and> line = q @ [dquote] \<and> \<not> contains [dquote, CHR '',''] line \<longrightarrow>
        process_line E st line0 =
          map_sum id reset (emit E (strip (append_line (current_quote st) q)) (current_speaker st) st))
   \<and> (strip line0 = [] \<and> strip (current_quote st) \<noteq> [] \<longrightarrow>
        process_line E st line0 =
          map_sum id reset (emit E (strip (current_quote st)) (current_speaker st) st))
   \<and> (strip line0 = [] \<and> strip (current_quote st) = [] \<longrightarrow> process_line E st line0 = Inr st)
   \<and> parse_lines quiet_env
       [''header'', dquote # ''Line one'', ''Line two'' @ dquote # '',Mark Twain'', []] =
     Inr (1, [(''Line one'' @ newline # ''Line two'', ''Mark Twain'',
               ''output/quotes_quote_001.png'')])"
proof -
  have h1: "startswith [dquote] line0 \<or> in_quote st"
    using assms by (auto simp: startswith_def)
  have h2: "line = (if startswith [dquote] line0 then tl line0 else line0)"
    using assms by (auto simp: startswith_def)
  have e: "parse_lines quiet_env
       [''header'', dquote # ''Line one'', ''Line two'' @ dquote # '',Mark Twain'', []] =
     Inr (1, [(''Line one'' @ newline # ''Line two'', ''Mark Twain'',
               ''output/quotes_quote_001.png'')])"
    by code_simp
  have d: "strip line0 = [] \<longrightarrow>
        process_line E st line0 =
          (if strip (current_quote st) \<noteq> []
           then map_sum id reset (emit E (strip (current_quote st)) (current_speaker st) st)
           else Inr st)"
    using quoted_line_step [OF h1 h2, of E] by blast
  have d1: "strip line0 = [] \<and> strip (current_quote st) \<noteq> [] \<longrightarrow>
        process_line E st line0 =
          map_sum id reset (emit E (strip (current_quote st)) (current_speaker st) st)"
    and d2: "strip line0 = [] \<and> strip (current_quote st) = [] \<longrightarrow> process_line E st line0 = Inr st"
    using d by simp_all
  from quoted_line_step [OF h1 h2, of E] d1 d2 e show ?thesis by blast
qed

theorem quoted_field_accumulates_until_close_witness:
  "process_line quiet_env
     \<lparr>count = 0, current_quote = ''Line one'', current_speaker = [], in_quote = True, calls = []\<rparr>
     (''Line two'' @ dquote # '',Mark Twain'') =
   Inr \<lparr>count = 1, current_quote = [], current_speaker = [], in_quote = False,
        calls = [(''Line one'' @ newline # ''Line two'', ''Mark Twain'',
                  ''output/quotes_quote_001.png'')]\<rparr>"
proof -
  let ?st = "\<lparr>count = 0, current_quote = ''Line one'', current_speaker = [], in_quote = True,
              calls = []\<rparr>"
  let ?l = "''Line two'' @ dquote # '',Mark Twain''"
  have h: "(\<not> in_quote ?st \<and> ?l = dquote # ?l)
         \<or> (in_quote ?st \<and> \<not> startswith [dquote] ?l \<and> ?l = ?l)"
    by (simp add: startswith_def dquote_def)
  have g: "strip ?l \<noteq> [] \<and> ?l = ''Line two'' @ [dquote, CHR '',''] @ ''Mark Twain''
      \<and> \<not> contains [dquote, CHR '',''] ''Mark Twain''"
    by code_simp
  have e: "map_sum id reset
      (emit quiet_env (strip (append_line (current_quote ?st) ''Line two'')) (strip ''Mark Twain'') ?st) =
    Inr \<lparr>count = 1, current_quote = [], current_speaker = [], in_quote = False,
        calls = [(''Line one'' @ newline # ''Line two'', ''Mark Twain'',
                  ''output/quotes_quote_001.png'')]\<rparr>"
    by code_simp
  have "\<forall>q s. strip ?l \<noteq> [] \<and> ?l = q @ [dquote, CHR '',''] @ s \<and> \<not> contains [dquote, CHR '',''] s \<longrightarrow>
        process_line quiet_env ?st ?l =
          map_sum id reset (emit quiet_env (strip (append_line (current_quote ?st) q)) (strip s) ?st)"
    using quoted_field_accumulates_until_close [OF h, of quiet_env] by blast
  then have "process_line quiet_env ?st ?l =
          map_sum id reset (emit quiet_env (strip (append_line (current_quote ?st) ''Line two''))
             (strip ''Mark Twain'') ?st)"
    using g by blast
  then show ?thesis
    by (simp only: e)
qed

lemma output_path_never_raising [simp]: "output_path (never_raising E) c = output_path E c"
  by (simp add: output_path_def never_raising_def)

lemma first_failure_append:
  "first_failure E pre (a @ b) =
     (case first_failure E pre a of Some x \<Rightarrow> Some x | None \<Rightarrow> first_failure E (pre @ a) b)"
  by (induction a arbitrary: pre) (auto split: option.splits)

lemma tracks_same: "calls st' = calls st \<Longrightarrow> tracks E st (Inr st') (Inr st')"
  unfolding tracks_def by (rule exI [of _ st'], rule exI [of _ "[]"]) (simp add: replay_def)

lemma tracks_emit: "tracks E st (emit (never_raising E) q s st) (emit E q s st)"
  unfolding tracks_def
  by (rule exI [of _ "st\<lparr>count := count st + 1, calls := calls st @ [(q, s, output_path E (count st + 1))]\<rparr>"],
      rule exI [of _ "[(q, s, output_path E (count st + 1))]"])
     (simp add: emit_def Let_def replay_def never_raising_def output_path_def split: option.splits)

lemma tracks_emit_reset:
  "tracks E st (map_sum id reset (emit (never_raising E) q s st)) (map_sum id reset (emit E q s st))"
  unfolding tracks_def
  by (rule exI [of _ "reset (st\<lparr>count := count st + 1, calls := calls st @ [(q, s, output_path E (count st + 1))]\<rparr>)"],
      rule exI [of _ "[(q, s, output_path E (count st + 1))]"])
     (simp add: emit_def Let_def replay_def never_raising_def output_path_def reset_def split: option.splits)

lemma tracks_quoted_close:
  assumes "contains [dquote, CHR '',''] x"
  shows "tracks E st
     (case rsplit1 [dquote, CHR '',''] x of
        [quote_part, speaker_part] \<Rightarrow>
          map_sum id reset
            (emit (never_raising E) (strip (append_line (current_quote st) quote_part))
               (strip speaker_part) st)
      | _ \<Rightarrow> Inl (ValueError, calls st))
     (case rsplit1 [dquote, CHR '',''] x of
        [quote_part, speaker_part] \<Rightarrow>
          map_sum id reset
            (emit E (strip (append_line (current_quote st) quote_part))
               (strip speaker_part) st)
      | _ \<Rightarrow> Inl (ValueError, calls st))"
proof -
  obtain a b where "rsplit1 [dquote, CHR '',''] x = [a, b]"
    using contains_rsplit1 [OF _ assms] by auto
  then show ?thesis
    by (simp add: tracks_emit_reset)
qed

lemma tracks_process_line: "tracks E st (process_line (never_raising E) st l) (process_line E st l)"
  by (simp add: process_line_def Let_def tracks_same tracks_emit tracks_emit_reset
        tracks_quoted_close)

lemma tracks_process_lines: "tracks E st (process_lines (never_raising E) st ls) (process_lines E st ls)"
proof (induction ls arbitrary: st)
  case Nil
  show ?case by (simp add: tracks_same)
next
  case (Cons l ls)
  obtain st1 new1 where 1: "process_line (never_raising E) st l = Inr st1"
      "calls st1 = calls st @ new1" "process_line E st l = replay E (calls st) new1 st1"
    using tracks_process_line [of E st l] unfolding tracks_def by blast
  obtain st2 new2 where 2: "process_lines (never_raising E) st1 ls = Inr st2"
      "calls st2 = calls st1 @ new2" "process_lines E st1 ls = replay E (calls st1) new2 st2"
    using Cons.IH [of st1] unfolding tracks_def by blast
  show ?case
    unfolding tracks_def
    by (rule exI [of _ st2], rule exI [of _ "new1 @ new2"])
       (simp add: 1 2 replay_def first_failure_append split: option.splits)
qed

lemma tracks_finish: "tracks E st (finish (never_raising E) st) (finish E st)"
  by (simp add: finish_def tracks_same tracks_emit)

lemma parse_lines_replay:
  "\<exists>n cs. parse_lines (never_raising E) lines = Inr (n, cs)
        \<and> parse_lines E lines = replay E [] cs (n, cs)"
proof -
  obtain st1 new1 where 1: "process_lines (never_raising E) initial_state (tl lines) = Inr st1"
      "calls st1 = new1" "process_lines E initial_state (tl lines) = replay E [] new1 st1"
    using tracks_process_lines [of E initial_state "tl lines"] unfolding tracks_def
    by (auto simp: initial_state_def)
  obtain st2 new2 where 2: "finish (never_raising E) st1 = Inr st2"
      "calls st2 = calls st1 @ new2" "finish E st1 = replay E (calls st1) new2 st2"
    using tracks_finish [of E st1] unfolding tracks_def by blast
  show ?thesis
    by (rule exI [of _ "count st2"], rule exI [of _ "calls st2"])
       (simp add: parse_lines_def 1 2 replay_def first_failure_append split: option.splits)
qed

lemma first_failure_at:
  assumes "k < length cs" and "cs ! k = (q, s, p)" and "generate_image E q s p = Some e"
    and "\<forall>i<k. case cs ! i of (q', s', p') \<Rightarrow> generate_image E q' s' p' = None"
  shows "first_failure E pre cs = Some (e, pre @ take (Suc k) cs)"
  using assms
proof (induction cs arbitrary: k pre)
  case Nil
  then show ?case by simp
next
  case (Cons c cs)
  obtain q' s' p' where c: "c = (q', s', p')" by (cases c) auto
  show ?case
  proof (cases k)
    case 0
    then show ?thesis using Cons.prems c by simp
  next
    case (Suc j)
    have "generate_image E q' s' p' = None"
      using Cons.prems(4) c Suc by (auto dest: spec [of _ 0])
    moreover have "first_failure E (pre @ [c]) cs = Some (e, (pre @ [c]) @ take (Suc j) cs)"
      using Cons.prems Suc by (intro Cons.IH) auto
    ultimately show ?thesis using c Suc by simp
  qed
qed

lemma first_failure_none:
  "\<forall>c\<in>set cs. case c of (q, s, p) \<Rightarrow> generate_image E q s p = None \<Longrightarrow> first_failure E pre cs = None"
  by (induction cs arbitrary: pre) auto

text \<open>
  C1, as stated, fails: with a renderer that raises on the second image of a batch of
  three records, \<open>process_csv\<close> raises that error and the third record is never
  rendered; with a renderer that never raises, all three are.
\<close>

theorem render_failure_aborts_batch_counterexample:
  "process_csv failing_env
     (''header'' @ newline # ''First, A'' @ newline # ''Second, B'' @ newline # ''Third, C'' @ [newline]) =
     Inl (OSError, [(''First'', ''A'', ''output/quotes_quote_001.png''),
                    (''Second'', ''B'', ''output/quotes_quote_002.png'')])
   \<and> process_csv quiet_env
     (''header'' @ newline # ''First, A'' @ newline # ''Second, B'' @ newline # ''Third, C'' @ [newline]) =
     Inr (3, [(''First'', ''A'', ''output/quotes_quote_001.png''),
              (''Second'', ''B'', ''output/quotes_quote_002.png''),
              (''Third'', ''C'', ''output/quotes_quote_003.png'')])"
  by code_simp

text \<open>
  C1, amended. \<open>process_csv\<close> has no handler around \<open>generate_image\<close>: when the
  renderer raises for the record number \<open>k\<close> of the batch (and for none before it),
  \<open>process_csv\<close> raises the same error, having called the renderer for the records up
  to that one only; no later record is rendered and no count is returned.
\<close>

theorem render_failure_propagates:
  assumes "process_csv (never_raising E) content = Inr (n, cs)"
    and "k < length cs" and "cs ! k = (q, s, p)" and "generate_image E q s p = Some e"
    and "\<forall>i<k. case cs ! i of (q', s', p') \<Rightarrow> generate_image E q' s' p' = None"
  shows "process_csv E content = Inl (e, take (Suc k) cs)"
proof -
  obtain n' cs' where 1: "parse_lines (never_raising E) (split newline content) = Inr (n', cs')"
    and 2: "parse_lines E (split newline content) = replay E [] cs' (n', cs')"
    using parse_lines_replay by blast
  from 1 assms(1) have "cs' = cs"
    by (simp add: process_csv_def)
  with 2 first_failure_at [OF assms(2-5), of "[]"] show ?thesis
    by (simp add: process_csv_def replay_def)
qed


theorem render_failure_propagates_witness:
  "process_csv failing_env (''header'' @ newline # ''First, A'' @ newline # ''Second, B'' @ [newline]) =
     Inl (OSError, [(''First'', ''A'', ''output/quotes_quote_001.png''),
                    (''Second'', ''B'', ''output/quotes_quote_002.png'')])"
proof -
  let ?cs = "[(''First'', ''A'', ''output/quotes_quote_001.png''),
              (''Second'', ''B'', ''output/quotes_quote_002.png'')]"
  have h1: "process_csv (never_raising failing_env)
      (''header'' @ newline # ''First, A'' @ newline # ''Second, B'' @ [newline]) = Inr (2, ?cs)"
    by code_simp
  have h2: "1 < length ?cs"
    by simp
  have h3: "?cs ! 1 = (''Second'', ''B'', ''output/quotes_quote_002.png'')"
    by simp
  have h4: "generate_image failing_env ''Second'' ''B'' ''output/quotes_quote_002.png'' = Some OSError"
    by (simp add: failing_env_def)
  have h5: "\<forall>i<1. case ?cs ! i of (q', s', p') \<Rightarrow> generate_image failing_env q' s' p' = None"
    by (simp add: failing_env_def)
  show ?thesis
    using render_failure_propagates [OF h1 h2 h3 h4 h5] by simp
qed


section \<open>Font resolution\<close>

lemma try_extensions_eq:
  "try_extensions ex d n [''.ttf'', ''.TTF''] av = av @ first_variant ex d n"
  by (simp add: first_variant_def Let_def)

lemma try_fonts_eq:
  "try_fonts ex d names av = av @ concat (map (first_variant ex d) names)"
  by (induction names arbitrary: av) (simp_all add: try_extensions_eq del: try_extensions.simps)

lemma try_paths_eq:
  "try_paths ex paths av = av @ resolved_per_directory ex paths"
  by (induction paths arbitrary: av) (simp_all add: try_fonts_eq resolved_per_directory_def)

text \<open>
  C9, as stated, fails: a candidate font present in the project's font directory and in a
  system font directory is resolved twice, once for each directory.
\<close>

theorem font_resolved_twice_counterexample:
  "find_available_fonts twice_installed (get_font_paths (Some ''/home/u/quotes/fonts/ttf'')) =
     [Some ''/home/u/quotes/fonts/ttf/Pacifico-Regular.ttf'',
      Some ''/usr/share/fonts/truetype/ubuntu/Pacifico-Regular.ttf'']"
  by code_simp

text \<open>
  C9, amended. Font resolution yields, for each search directory that exists (in the
  fixed order) and each candidate identifier (in order), at most one file: the first of
  the extension variants \<open>.ttf\<close>, \<open>.TTF\<close> that exists in that directory. An identifier
  found in several search directories is resolved once for each of them. With no file
  found at all, the result is the single default-font entry.
\<close>

theorem fonts_resolved_once_per_directory:
  "find_available_fonts path_exists font_paths =
     (if resolved_per_directory path_exists font_paths = [] then [None]
      else map Some (resolved_per_directory path_exists font_paths))
   \<and> length (first_variant path_exists font_path font_name) \<le> 1
   \<and> set (first_variant path_exists font_path font_name)
       \<subseteq> {f. path_exists f} \<inter>
         {os_path_join font_path (font_name @ ''.ttf''), os_path_join font_path (font_name @ ''.TTF'')}"
  by (simp add: find_available_fonts_def try_paths_eq [of _ _ "[]", simplified] first_variant_def)


section \<open>The text wrapper\<close>

lemma adjust_final:
  "adjust font max_width paragraph todo cpl wrapped final = Inr (wrapped', final')
     \<Longrightarrow> final' = final @ todo"
proof (induction todo arbitrary: cpl wrapped final)
  case Nil
  then show ?case by simp
next
  case (Cons line todo)
  from Cons.prems obtain c w where
    "adjust font max_width paragraph todo c w (final @ [line]) = Inr (wrapped', final')"
    by (auto simp: Let_def split: if_splits sum.splits)
  then have "final' = (final @ [line]) @ todo"
    by (rule Cons.IH)
  then show ?case by simp
qed

text \<open>
  Whenever \<open>_wrap_text\<close> returns the lines of a paragraph, they are the lines of the
  first wrap, at the estimated budget: the later wraps never reach the result.
\<close>

lemma wrap_paragraph_first_wrap:
  assumes "wrap_paragraph font max_width paragraph = Inr ls"
  shows "bbox_right font ''x'' \<noteq> 0"
    and "textwrap_wrap paragraph (estimate_chars_per_line max_width (bbox_right font ''x'')) = Inr ls"
proof -
  let ?cpl = "estimate_chars_per_line max_width (bbox_right font ''x'')"
  show nz: "bbox_right font ''x'' \<noteq> 0"
    using assms by (auto simp: wrap_paragraph_def Let_def)
  obtain wrapped where w: "textwrap_wrap paragraph ?cpl = Inr wrapped"
    using assms nz by (auto simp: wrap_paragraph_def Let_def split: sum.splits)
  obtain wrapped' final where a: "adjust font max_width paragraph wrapped ?cpl wrapped [] = Inr (wrapped', final)"
    using assms nz w by (auto simp: wrap_paragraph_def Let_def split: sum.splits)
  have f: "final = wrapped"
    using adjust_final [OF a] by simp
  have "wrapped = [] \<Longrightarrow> wrapped' = []"
    using a by simp
  then have "ls = wrapped"
    using assms nz w a f by (auto simp: wrap_paragraph_def Let_def)
  then show "textwrap_wrap paragraph ?cpl = Inr ls"
    using w by simp
qed

text \<open>
  A budget that reaches 0 after at most as many shrinks as there are lines too wide
  makes the wrapper raise.
\<close>

lemma adjust_raises:
  assumes "\<forall>l\<in>set todo. bbox_right font l > max_width \<and> length l > 10"
    and "(shrink ^^ n) cpl = 0" and "0 < n" and "n \<le> length todo"
  shows "adjust font max_width paragraph todo cpl wrapped final = Inl ValueError"
  using assms
proof (induction todo arbitrary: n cpl wrapped final)
  case Nil
  then show ?case by simp
next
  case (Cons line todo)
  obtain m where n: "n = Suc m" using Cons.prems(3) by (cases n) auto
  have z: "(shrink ^^ m) (shrink cpl) = 0"
    using Cons.prems(2) n by (simp add: funpow_swap1)
  show ?case
  proof (cases "shrink cpl = 0")
    case True
    then show ?thesis using Cons.prems(1) by (simp add: textwrap_wrap_def)
  next
    case False
    then have m: "0 < m" using z by (cases m) auto
    have "adjust font max_width paragraph todo (shrink cpl) w (final @ [line]) = Inl ValueError" for w
      using Cons.prems(1,4) n m z by (intro Cons.IH [of m]) auto
    then show ?thesis
      using Cons.prems(1) False by (simp add: textwrap_wrap_def)
  qed
qed


text \<open>
  C2. A line wider than \<open>max_width\<close> with more than 10 characters should make the
  paragraph be wrapped again with the budget shrunk by a tenth, and the lines of that
  second wrap be returned. The code wraps again and drops the result: with the example
  font at size 120 and a width of 768 the budget is 12, the first line of
  \<open>WWWWWWWWWWWW on\<close> is 1440 pixels wide and 12 characters long, the second wrap (budget
  10) gives other lines, and \<open>_wrap_text\<close> returns the lines of the first wrap.
\<close>

theorem rewrap_result_discarded:
  "wrap_text ''WWWWWWWWWWWW on'' (example_font 120) 768 = Inr [''WWWWWWWWWWWW'', ''on'']
   \<and> estimate_chars_per_line 768 (bbox_right (example_font 120) ''x'') = 12
   \<and> textwrap_wrap ''WWWWWWWWWWWW on'' 12 = Inr [''WWWWWWWWWWWW'', ''on'']
   \<and> bbox_right (example_font 120) ''WWWWWWWWWWWW'' = 1440
   \<and> shrink 12 = 10
   \<and> textwrap_wrap ''WWWWWWWWWWWW on'' 10 = Inr [''WWWWWWWWWW'', ''WW on'']"
  by code_simp

lemma wrap_text_raises_on_wide_lines:
  "wrap_text (concat (replicate 11 ''WWWWWWWWWWWW '')) (example_font 120) 768 = Inl ValueError"
proof -
  let ?t = "concat (replicate 11 ''WWWWWWWWWWWW '')"
  let ?w = "replicate 11 ''WWWWWWWWWWWW''"
  have p: "split newline ?t = [?t]" and b: "strip ?t \<noteq> []"
    by code_simp+
  have x: "bbox_right (example_font 120) ''x'' = 60"
    by (simp add: example_font_def)
  have c: "estimate_chars_per_line 768 60 = 12"
    by code_simp
  have w: "textwrap_wrap ?t 12 = Inr ?w"
    by code_simp
  have wide: "\<forall>l\<in>set ?w. bbox_right (example_font 120) l > 768 \<and> length l > 10"
    by (simp add: example_font_def)
  have s: "shrink 12 = 10" "shrink 10 = 9" "shrink 9 = 8" "shrink 8 = 7" "shrink 7 = 6"
    "shrink 6 = 5" "shrink 5 = 4" "shrink 4 = 3" "shrink 3 = 2" "shrink 2 = 1" "shrink 1 = 0"
    by code_simp+
  have z: "(shrink ^^ Suc (Suc (Suc (Suc (Suc (Suc (Suc (Suc (Suc (Suc (Suc 0))))))))))) 12 = 0"
    using s by simp
  have "adjust (example_font 120) 768 ?t ?w 12 ?w [] = Inl ValueError"
    by (rule adjust_raises [OF wide z]) simp_all
  then have "wrap_paragraph (example_font 120) 768 ?t = Inl ValueError"
    by (simp add: wrap_paragraph_def x c w)
  then show ?thesis
    by (simp add: wrap_text_def p b)
qed

text \<open>
  C7. The fitter should return for every quote. The wrapper shrinks its budget once for
  every line that is too wide and wraps again each time; when eleven lines are too wide
  the budget goes 12, 10, 9, \<dots>, 1, 0 and \<open>textwrap.wrap\<close> raises \<open>ValueError\<close>, which
  nothing catches. On a canvas of 800 by 600 (content box 768 by 540) a quote of eleven
  words of twelve capital W does it in the first round, at size 120.
\<close>

theorem fitter_raises_on_wide_lines:
  "calculate_font_size example_provider (concat (replicate 11 ''WWWWWWWWWWWW '')) None 768 540 =
     Inl ValueError"
proof -
  have f: "get_random_font example_provider 0 120 = Inr (example_font 120)"
    by (simp add: get_random_font_def example_provider_def)
  show ?thesis
    unfolding calculate_font_size_def
    by (subst fit_loop.simps) (simp add: f wrap_text_raises_on_wide_lines)
qed

text \<open>Rounds that reject lead to the next round; a round that accepts returns.\<close>

lemma fit_loop_round:
  assumes "20 \<le> round_size j"
  shows "round_rejects P text speaker max_width max_height j \<Longrightarrow>
     fit_loop P text speaker max_width max_height (round_size j) j =
     fit_loop P text speaker max_width max_height (round_size (Suc j)) (Suc j)"
  using assms
  by (subst fit_loop.simps)
     (auto simp: round_rejects_def round_size_def Let_def split: sum.splits)

lemma fit_loop_rejecting_rounds:
  assumes "\<forall>j<n. round_rejects P text speaker max_width max_height j" and "n \<le> 51"
  shows "fit_loop P text speaker max_width max_height 120 0 =
     fit_loop P text speaker max_width max_height (round_size n) n"
  using assms
proof (induction n)
  case 0
  show ?case by (simp add: round_size_def)
next
  case (Suc n)
  have "20 \<le> round_size n"
    using Suc.prems(2) by (simp add: round_size_def)
  then have "fit_loop P text speaker max_width max_height (round_size n) n =
     fit_loop P text speaker max_width max_height (round_size (Suc n)) (Suc n)"
    using Suc.prems(1) by (intro fit_loop_round) auto
  then show ?case
    using Suc by simp
qed

lemma long_quote_rejected:
  "\<forall>j<51. round_rejects default_provider long_quote (Some ''Anonymous'') 768 540 j"
proof -
  have q: "get_random_font default_provider j s = Inr bitmap_font" for j s
    by (simp add: get_random_font_def default_provider_def)
  have w: "wrap_text long_quote bitmap_font 768 = Inr (replicate 38 ''a'')"
    by code_simp
  have h: "list_all (\<lambda>j. \<not> float_le_int
              (total_text_height bitmap_font
                 (get_speaker_font default_provider (speaker_size 14 (round_size j)))
                 (replicate 38 ''a'') (Some ''Anonymous'')) 540) [0..<51]"
    by code_simp
  show ?thesis
    using h by (simp add: round_rejects_def q w list_all_iff)
qed

text \<open>
  C8. The speaker font size should be \<open>max(14, floor(size * 0.4))\<close> in the fallback too,
  which is 14 at size 20. The fallback asks for \<open>max(12, int(20 * 0.4))\<close>: for a quote
  that fits at no size (38 lines in the default font, in a box 768 by 540) all 51 rounds
  reject, the quote font size is 20 and the speaker font size is 12.
\<close>

theorem fallback_speaker_size_is_12:
  "map_sum id (\<lambda>r. (quote_font_size r, speaker_font_size r, size_steps r))
     (calculate_font_size default_provider long_quote (Some ''Anonymous'') 768 540) =
   Inr (20, 12, 51)
   \<and> speaker_size 14 20 = 14"
proof -
  have q: "get_random_font default_provider j s = Inr bitmap_font" for j s
    by (simp add: get_random_font_def default_provider_def)
  have w: "wrap_text long_quote bitmap_font 768 = Inr (replicate 38 ''a'')"
    by code_simp
  have s: "speaker_size 12 20 = 12" "speaker_size 14 20 = 14"
    by code_simp+
  have "calculate_font_size default_provider long_quote (Some ''Anonymous'') 768 540 =
      fit_loop default_provider long_quote (Some ''Anonymous'') 768 540 (round_size 51) 51"
    unfolding calculate_font_size_def
    by (rule fit_loop_rejecting_rounds [OF long_quote_rejected]) simp
  also have "map_sum id (\<lambda>r. (quote_font_size r, speaker_font_size r, size_steps r)) \<dots> =
      Inr (20, 12, 51)"
    by (subst fit_loop.simps) (simp add: round_size_def q w s)
  finally have "map_sum id (\<lambda>r. (quote_font_size r, speaker_font_size r, size_steps r))
     (calculate_font_size default_provider long_quote (Some ''Anonymous'') 768 540) =
   Inr (20, 12, 51)" .
  then show ?thesis
    using s(2) by (rule conjI)
qed

end
